theory Spec2Isabelle
  imports Main "HOL-Library.Word"
begin

section \<open>Errors and results\<close>

text \<open>
  \<^verbatim>\<open>embed.ts\<close> raises with \<^verbatim>\<open>throw new Error(message)\<close>; the only other way
  \<^verbatim>\<open>fromUri\<close> can fail is that the promise returned by the HTTP client rejects, and
  \<^verbatim>\<open>await\<close> rethrows whatever it rejected with. \<open>DecodeError\<close> is raised by no code of
  \<^verbatim>\<open>embed.ts\<close>; it belongs to the raw-byte accessor described in the specification.
\<close>

datatype error =
    Error string
  | RequestError string
  | DecodeError

section \<open>The URL test\<close>

text \<open>
  \<^verbatim>\<open>isURL(str)\<close> is \<^verbatim>\<open>try { new URL(str); return true } catch { return false }\<close>.
  \<^verbatim>\<open>new URL(str)\<close> runs the basic URL parser of the URL Standard on \<^verbatim>\<open>str\<close> with no base
  URL. The states that decide whether a scheme is present are modelled here step by step
  (input preparation, scheme start state, scheme state, no scheme state). After the scheme
  the parser continues in a state chosen from the scheme and the next characters; the
  states that cannot fail (opaque path, path, query, fragment) are modelled as success, and
  the states that parse an authority or a host, which can fail, are a parameter
  \<open>hostStates\<close> of the model.
\<close>

definition isC0ControlOrSpace :: "char \<Rightarrow> bool" where
  "isC0ControlOrSpace c = ((of_char c :: nat) \<le> 32)"

definition isAsciiTabOrNewline :: "char \<Rightarrow> bool" where
  "isAsciiTabOrNewline c = (c = CHR 0x09 \<or> c = CHR 0x0A \<or> c = CHR 0x0D)"

definition isAsciiUpperAlpha :: "char \<Rightarrow> bool" where
  "isAsciiUpperAlpha c = (65 \<le> (of_char c :: nat) \<and> (of_char c :: nat) \<le> 90)"

definition isAsciiLowerAlpha :: "char \<Rightarrow> bool" where
  "isAsciiLowerAlpha c = (97 \<le> (of_char c :: nat) \<and> (of_char c :: nat) \<le> 122)"

definition isAsciiAlpha :: "char \<Rightarrow> bool" where
  "isAsciiAlpha c = (isAsciiUpperAlpha c \<or> isAsciiLowerAlpha c)"

definition isAsciiDigit :: "char \<Rightarrow> bool" where
  "isAsciiDigit c = (48 \<le> (of_char c :: nat) \<and> (of_char c :: nat) \<le> 57)"

definition asciiLowercase :: "char \<Rightarrow> char" where
  "asciiLowercase c = (if isAsciiUpperAlpha c then char_of ((of_char c :: nat) + 32) else c)"

text \<open>Strip leading and trailing C0 controls and spaces, then drop every tab and newline.\<close>

definition prepareInput :: "string \<Rightarrow> string" where
  "prepareInput str =
     filter (\<lambda>c. \<not> isAsciiTabOrNewline c)
       (rev (dropWhile isC0ControlOrSpace (rev (dropWhile isC0ControlOrSpace str))))"

text \<open>
  Scheme state: scheme characters are collected, lowercased, in the buffer; a colon ends
  the scheme and hands over the rest of the input; anything else, or the end of the input,
  leads to the no scheme state, which fails because there is no base URL.
\<close>

fun schemeState :: "string \<Rightarrow> string \<Rightarrow> (string \<times> string) option" where
  "schemeState buffer [] = None"
| "schemeState buffer (c # cs) =
     (if isAsciiAlpha c \<or> isAsciiDigit c \<or> c = CHR ''+'' \<or> c = CHR ''-'' \<or> c = CHR ''.''
      then schemeState (buffer @ [asciiLowercase c]) cs
      else if c = CHR '':'' then Some (buffer, cs)
      else None)"

text \<open>Scheme start state: a scheme begins with an ASCII letter.\<close>

definition schemeStartState :: "string \<Rightarrow> (string \<times> string) option" where
  "schemeStartState input =
     (case input of
        [] \<Rightarrow> None
      | c # cs \<Rightarrow> if isAsciiAlpha c then schemeState [asciiLowercase c] cs else None)"

definition isSpecialScheme :: "string \<Rightarrow> bool" where
  "isSpecialScheme scheme =
     (scheme \<in> set [''ftp'', ''file'', ''http'', ''https'', ''ws'', ''wss''])"

text \<open>
  What follows the colon. A special scheme (among them \<^verbatim>\<open>file\<close>) always goes on to the
  authority, host or file states. Any other scheme goes to the authority state when the
  rest starts with two slashes, to the path state when it starts with one, and to the
  opaque path state otherwise; the last two never fail.
\<close>

definition afterScheme :: "(string \<Rightarrow> string \<Rightarrow> bool) \<Rightarrow> string \<Rightarrow> string \<Rightarrow> bool" where
  "afterScheme hostStates scheme remaining =
     (if isSpecialScheme scheme then hostStates scheme remaining
      else (case remaining of
              c # d # _ \<Rightarrow>
                if c = CHR ''/'' \<and> d = CHR ''/'' then hostStates scheme remaining else True
            | _ \<Rightarrow> True))"

definition parseURL :: "(string \<Rightarrow> string \<Rightarrow> bool) \<Rightarrow> string \<Rightarrow> bool" where
  "parseURL hostStates str =
     (case schemeStartState (prepareInput str) of
        None \<Rightarrow> False
      | Some (scheme, remaining) \<Rightarrow> afterScheme hostStates scheme remaining)"

definition isURL :: "(string \<Rightarrow> string \<Rightarrow> bool) \<Rightarrow> string \<Rightarrow> bool" where
  "isURL hostStates str = (if parseURL hostStates str then True else False)"

section \<open>Base64\<close>

text \<open>
  \<^verbatim>\<open>response.body.toString('base64')\<close> is the Base64 encoding of RFC 4648 with the
  standard alphabet and \<^verbatim>\<open>=\<close> padding. A \<^verbatim>\<open>Buffer\<close> is a sequence of bytes. Three
  bytes give four characters, each the alphabet's entry for six bits; one or two bytes
  left at the end give two or three characters, the unused low bits zero, and padding up
  to four.
\<close>

definition base64Alphabet :: string where
  "base64Alphabet = ''ABCDEFGHIJKLMNOPQRSTUVWXYZabcdefghijklmnopqrstuvwxyz0123456789+/''"

definition base64Char :: "nat \<Rightarrow> char" where
  "base64Char i = base64Alphabet ! (i mod 64)"

fun toBase64 :: "8 word list \<Rightarrow> string" where
  "toBase64 [] = []"
| "toBase64 [a] =
     [base64Char (unat a div 4), base64Char (unat a mod 4 * 16), CHR ''='', CHR ''='']"
| "toBase64 [a, b] =
     [base64Char (unat a div 4), base64Char (unat a mod 4 * 16 + unat b div 16),
      base64Char (unat b mod 16 * 4), CHR ''='']"
| "toBase64 (a # b # c # rest) =
     [base64Char (unat a div 4), base64Char (unat a mod 4 * 16 + unat b div 16),
      base64Char (unat b mod 16 * 4 + unat c div 64), base64Char (unat c mod 64)]
     @ toBase64 rest"

text \<open>
  A valid Base64 string, following the grammar of RFC 4648: groups of four alphabet
  characters, the last group possibly two or three characters whose final character has
  its unused low bits zero (one of \<^verbatim>\<open>AQgw\<close> after one byte, a multiple of four in the
  alphabet after two), with the padding written or left out.
\<close>

definition isBase64Char :: "char \<Rightarrow> bool" where
  "isBase64Char c = (c \<in> set base64Alphabet)"

fun validBase64 :: "string \<Rightarrow> bool" where
  "validBase64 [] = True"
| "validBase64 [c0] = False"
| "validBase64 [c0, c1] = (isBase64Char c0 \<and> c1 \<in> set ''AQgw'')"
| "validBase64 [c0, c1, c2] =
     (isBase64Char c0 \<and> isBase64Char c1 \<and> c2 \<in> set ''AEIMQUYcgkosw048'')"
| "validBase64 [c0, c1, c2, c3] =
     (if c3 = CHR ''=''
      then (if c2 = CHR ''='' then validBase64 [c0, c1] else validBase64 [c0, c1, c2])
      else isBase64Char c0 \<and> isBase64Char c1 \<and> isBase64Char c2 \<and> isBase64Char c3)"
| "validBase64 (c0 # c1 # c2 # c3 # rest) =
     (isBase64Char c0 \<and> isBase64Char c1 \<and> isBase64Char c2 \<and> isBase64Char c3
      \<and> validBase64 rest)"

text \<open>The canonical padding of a string: \<^verbatim>\<open>=\<close> up to the next multiple of four.\<close>

definition padCanonical :: "string \<Rightarrow> string" where
  "padCanonical s = s @ replicate ((4 - length s mod 4) mod 4) (CHR ''='')"

section \<open>The Embed class\<close>

record Embed =
  contentType :: string
  base64Data :: string

text \<open>The message of the error thrown by the constructor, as the template literal builds it.\<close>

definition InvalidPayload :: "string \<Rightarrow> error" where
  "InvalidPayload base64Data' =
     Error (''Invalid base64 data: '' @ [CHR 0x22] @ base64Data' @ [CHR 0x22]
            @ ''. If you'' @ [CHR 0x27]
            @ ''re trying to pass a URI, use Embed.fromUri() instead.'')"

text \<open>
  \<^verbatim>\<open>new Embed(contentType, base64Data)\<close>: the two parameter properties are stored, then
  the constructor body throws when the data parses as a URL, so that no instance results.
\<close>

definition Embed_new ::
  "(string \<Rightarrow> string \<Rightarrow> bool) \<Rightarrow> string \<Rightarrow> string \<Rightarrow> error + Embed" where
  "Embed_new hostStates contentType' base64Data' =
     (if isURL hostStates base64Data' then Inl (InvalidPayload base64Data')
      else Inr \<lparr>contentType = contentType', base64Data = base64Data'\<rparr>)"

section \<open>Fetching an Embed\<close>

text \<open>
  \<^verbatim>\<open>got(uri, {responseType: 'buffer'})\<close> is a call of the external HTTP client. The
  awaited promise either resolves with a response, of which the code reads
  \<^verbatim>\<open>statusCode\<close> and \<^verbatim>\<open>body\<close> (a \<^verbatim>\<open>Buffer\<close>, by the response type asked for), or
  rejects, and the rejection leaves \<^verbatim>\<open>fromUri\<close> as it is. The client is a parameter
  \<open>got\<close> of the model: what it sends over the network within the one call (redirects, a
  retry policy of its own, timeouts) and which statuses make it reject rather than
  resolve are not written in \<^verbatim>\<open>embed.ts\<close>, which passes the response type only.
\<close>

datatype responseType = Buffer | Text | Json

record gotOptions =
  responseType :: responseType

record Response =
  statusCode :: nat
  body :: "8 word list"

text \<open>A status code in a template literal is written in decimal.\<close>

fun showNat :: "nat \<Rightarrow> string" where
  "showNat n =
     (if n < 10 then [char_of (48 + n)]
      else showNat (n div 10) @ [char_of (48 + n mod 10)])"

declare showNat.simps [simp del]

text \<open>The message of the error thrown by \<^verbatim>\<open>fromUri\<close> on a status other than 200.\<close>

definition UnexpectedResponseStatus :: "nat \<Rightarrow> string \<Rightarrow> error" where
  "UnexpectedResponseStatus code uri =
     Error (''Got status code '' @ showNat code @ '' when fetching '' @ uri)"

definition fromUri ::
  "(string \<Rightarrow> string \<Rightarrow> bool) \<Rightarrow> (string \<Rightarrow> gotOptions \<Rightarrow> error + Response)
    \<Rightarrow> string \<Rightarrow> string \<Rightarrow> error + Embed" where
  "fromUri hostStates got contentType' uri =
     (case got uri \<lparr>responseType = Buffer\<rparr> of
        Inl rejection \<Rightarrow> Inl rejection
      | Inr response \<Rightarrow>
          if statusCode response \<noteq> 200
          then Inl (UnexpectedResponseStatus (statusCode response) uri)
          else Embed_new hostStates contentType' (toBase64 (body response)))"

section \<open>The raw-byte view\<close>

text \<open>
  Modelled from the spec: the accessor \<^verbatim>\<open>asBytes\<close> and the decoder behind it are not in
  \<^verbatim>\<open>embed.ts\<close>, whose class has the two public fields only. The specification
  describes the accessor as a pure decoding of the stored Base64 string that fails with
  \<open>DecodeError\<close> on malformed Base64. The decoder below reads groups of four characters,
  accepts a last group of two or three characters with or without padding, and rejects
  characters outside the alphabet, a single left-over character, padding anywhere but at
  the end, and a last character with unused bits set.
\<close>

definition base64Value :: "char \<Rightarrow> nat option" where
  "base64Value c = map_of (zip base64Alphabet [0..<64]) c"

definition decodePair :: "char \<Rightarrow> char \<Rightarrow> 8 word list option" where
  "decodePair c0 c1 =
     (case base64Value c0 of None \<Rightarrow> None | Some v0 \<Rightarrow>
     (case base64Value c1 of None \<Rightarrow> None | Some v1 \<Rightarrow>
        if v1 mod 16 = 0 then Some [of_nat (v0 * 4 + v1 div 16)] else None))"

definition decodeTriple :: "char \<Rightarrow> char \<Rightarrow> char \<Rightarrow> 8 word list option" where
  "decodeTriple c0 c1 c2 =
     (case base64Value c0 of None \<Rightarrow> None | Some v0 \<Rightarrow>
     (case base64Value c1 of None \<Rightarrow> None | Some v1 \<Rightarrow>
     (case base64Value c2 of None \<Rightarrow> None | Some v2 \<Rightarrow>
        if v2 mod 4 = 0
        then Some [of_nat (v0 * 4 + v1 div 16), of_nat (v1 mod 16 * 16 + v2 div 4)]
        else None)))"

definition decodeQuad :: "char \<Rightarrow> char \<Rightarrow> char \<Rightarrow> char \<Rightarrow> 8 word list option" where
  "decodeQuad c0 c1 c2 c3 =
     (case base64Value c0 of None \<Rightarrow> None | Some v0 \<Rightarrow>
     (case base64Value c1 of None \<Rightarrow> None | Some v1 \<Rightarrow>
     (case base64Value c2 of None \<Rightarrow> None | Some v2 \<Rightarrow>
     (case base64Value c3 of None \<Rightarrow> None | Some v3 \<Rightarrow>
        Some [of_nat (v0 * 4 + v1 div 16), of_nat (v1 mod 16 * 16 + v2 div 4),
              of_nat (v2 mod 4 * 64 + v3)]))))"

fun fromBase64 :: "string \<Rightarrow> 8 word list option" where
  "fromBase64 [] = Some []"
| "fromBase64 [c0] = None"
| "fromBase64 [c0, c1] = decodePair c0 c1"
| "fromBase64 [c0, c1, c2] = decodeTriple c0 c1 c2"
| "fromBase64 [c0, c1, c2, c3] =
     (if c3 = CHR ''=''
      then (if c2 = CHR ''='' then decodePair c0 c1 else decodeTriple c0 c1 c2)
      else decodeQuad c0 c1 c2 c3)"
| "fromBase64 (c0 # c1 # c2 # c3 # rest) =
     (case decodeQuad c0 c1 c2 c3 of
        None \<Rightarrow> None
      | Some bytes \<Rightarrow>
          (case fromBase64 rest of None \<Rightarrow> None | Some bytes' \<Rightarrow> Some (bytes @ bytes')))"

definition asBytes :: "Embed \<Rightarrow> error + 8 word list" where
  "asBytes e =
     (case fromBase64 (base64Data e) of
        None \<Rightarrow> Inl DecodeError
      | Some bytes \<Rightarrow> Inr bytes)"

section \<open>Properties of the URL test\<close>

lemma schemeState_colon: "schemeState buffer input = Some r \<Longrightarrow> CHR '':'' \<in> set input"
  by (induction input arbitrary: buffer) (auto split: if_splits)

lemma schemeStartState_colon: "schemeStartState input = Some r \<Longrightarrow> CHR '':'' \<in> set input"
  by (auto simp: schemeStartState_def split: list.splits if_splits dest: schemeState_colon)

lemma set_prepareInput: "set (prepareInput str) \<subseteq> set str"
proof -
  have "set (dropWhile isC0ControlOrSpace (rev (dropWhile isC0ControlOrSpace str))) \<subseteq> set str"
    by (auto dest!: set_dropWhileD)
  then show ?thesis
    by (auto simp: prepareInput_def)
qed

lemma isURL_colon: "isURL hostStates str \<Longrightarrow> CHR '':'' \<in> set str"
  using set_prepareInput [of str]
  by (auto simp: isURL_def parseURL_def split: option.splits if_splits
      dest: schemeStartState_colon)

section \<open>Properties of the Base64 encoding\<close>

lemma length_base64Alphabet: "length base64Alphabet = 64"
  by (simp add: base64Alphabet_def)

lemma distinct_base64Alphabet: "distinct base64Alphabet"
  by (simp add: base64Alphabet_def)

lemma base64Value_base64Char: "i < 64 \<Longrightarrow> base64Value (base64Char i) = Some i"
  unfolding base64Value_def base64Char_def
  using map_of_zip_nth [of base64Alphabet "[0..<64]" i]
  by (simp add: length_base64Alphabet distinct_base64Alphabet)

lemma base64Value_SomeD:
  assumes "base64Value c = Some v"
  shows "v < 64 \<and> base64Char v = c"
proof -
  from assms have "(c, v) \<in> set (zip base64Alphabet [0..<64])"
    unfolding base64Value_def by (rule map_of_SomeD)
  then obtain i where "i < 64" "base64Alphabet ! i = c" "[0..<64] ! i = v"
    by (auto simp: in_set_zip length_base64Alphabet)
  then show ?thesis by (simp add: base64Char_def)
qed

lemma base64Value_Some_iff: "base64Value c = Some v \<longleftrightarrow> v < 64 \<and> base64Char v = c"
  using base64Value_SomeD base64Value_base64Char by blast

lemma isBase64Char_iff: "isBase64Char c \<longleftrightarrow> (\<exists>v. base64Value c = Some v)"
proof -
  have "map fst (zip base64Alphabet [0..<64]) = base64Alphabet"
    by (simp add: length_base64Alphabet)
  then have "fst ` set (zip base64Alphabet [0..<64]) = set base64Alphabet"
    by (metis set_map)
  then have "isBase64Char c \<longleftrightarrow> c \<in> fst ` set (zip base64Alphabet [0..<64])"
    by (simp add: isBase64Char_def)
  also have "\<dots> \<longleftrightarrow> base64Value c \<noteq> None"
    by (simp add: base64Value_def map_of_eq_None_iff)
  finally show ?thesis by auto
qed

lemma base64Char_in_alphabet: "base64Char i \<in> set base64Alphabet"
  by (simp add: base64Char_def length_base64Alphabet)

lemma pad_not_in_alphabet: "CHR ''='' \<notin> set base64Alphabet"
  by (simp add: base64Alphabet_def)

lemma colon_not_in_alphabet: "CHR '':'' \<notin> set base64Alphabet"
  by (simp add: base64Alphabet_def)

lemma base64Char_not_pad: "base64Char i \<noteq> CHR ''=''"
  using base64Char_in_alphabet [of i] pad_not_in_alphabet by auto

lemma mod16_cases: "v < 64 \<Longrightarrow> v mod 16 = 0 \<Longrightarrow> v \<in> set [0, 16, 32, 48::nat]"
  by (simp; presburger)

lemma mod4_cases:
  "v < 64 \<Longrightarrow> v mod 4 = 0 \<Longrightarrow>
     v \<in> set [0, 4, 8, 12, 16, 20, 24, 28, 32, 36, 40, 44, 48, 52, 56, 60::nat]"
  by (simp; presburger)

lemma base64Char_16: "map base64Char [0, 16, 32, 48] = ''AQgw''"
  by (simp add: base64Char_def base64Alphabet_def)

lemma base64Char_4:
  "map base64Char [0, 4, 8, 12, 16, 20, 24, 28, 32, 36, 40, 44, 48, 52, 56, 60]
     = ''AEIMQUYcgkosw048''"
  by (simp add: base64Char_def base64Alphabet_def)

lemma tail2_iff: "c \<in> set ''AQgw'' \<longleftrightarrow> (\<exists>v. base64Value c = Some v \<and> v mod 16 = 0)"
proof
  assume "c \<in> set ''AQgw''"
  then have "c \<in> base64Char ` set [0, 16, 32, 48]"
    by (simp only: base64Char_16 [symmetric] set_map)
  then obtain v where v: "v \<in> set [0, 16, 32, 48]" and c: "c = base64Char v"
    by blast
  from v have "v < 64" and m: "v mod 16 = 0" by auto
  then have "base64Value c = Some v"
    unfolding c by (simp only: base64Value_base64Char)
  with m show "\<exists>v. base64Value c = Some v \<and> v mod 16 = 0"
    by (intro exI conjI)
next
  assume "\<exists>v. base64Value c = Some v \<and> v mod 16 = 0"
  then obtain v where v: "v < 64" "v mod 16 = 0" and c: "base64Char v = c"
    by (auto simp: base64Value_Some_iff)
  from v have "v \<in> set [0, 16, 32, 48]"
    by (rule mod16_cases)
  with c have "c \<in> base64Char ` set [0, 16, 32, 48]"
    by (intro image_eqI [of _ _ v]) (rule sym)
  then show "c \<in> set ''AQgw''"
    by (simp only: base64Char_16 [symmetric] set_map)
qed

lemma tail3_iff:
  "c \<in> set ''AEIMQUYcgkosw048'' \<longleftrightarrow> (\<exists>v. base64Value c = Some v \<and> v mod 4 = 0)"
proof
  assume "c \<in> set ''AEIMQUYcgkosw048''"
  then have
    "c \<in> base64Char ` set [0, 4, 8, 12, 16, 20, 24, 28, 32, 36, 40, 44, 48, 52, 56, 60]"
    by (simp only: base64Char_4 [symmetric] set_map)
  then obtain v
    where v: "v \<in> set [0, 4, 8, 12, 16, 20, 24, 28, 32, 36, 40, 44, 48, 52, 56, 60]"
      and c: "c = base64Char v"
    by blast
  from v have "v < 64" and m: "v mod 4 = 0" by auto
  then have "base64Value c = Some v"
    unfolding c by (simp only: base64Value_base64Char)
  with m show "\<exists>v. base64Value c = Some v \<and> v mod 4 = 0"
    by (intro exI conjI)
next
  assume "\<exists>v. base64Value c = Some v \<and> v mod 4 = 0"
  then obtain v where v: "v < 64" "v mod 4 = 0" and c: "base64Char v = c"
    by (auto simp: base64Value_Some_iff)
  from v have "v \<in> set [0, 4, 8, 12, 16, 20, 24, 28, 32, 36, 40, 44, 48, 52, 56, 60]"
    by (rule mod4_cases)
  with c have
    "c \<in> base64Char ` set [0, 4, 8, 12, 16, 20, 24, 28, 32, 36, 40, 44, 48, 52, 56, 60]"
    by (intro image_eqI [of _ _ v]) (rule sym)
  then show "c \<in> set ''AEIMQUYcgkosw048''"
    by (simp only: base64Char_4 [symmetric] set_map)
qed

lemma unat_byte: "unat (a :: 8 word) < 256"
  using unsigned_less [of a] by simp

lemma div_mod_16: "k < 16 \<Longrightarrow> (m * 16 + k) div 16 = (m::nat) \<and> (m * 16 + k) mod 16 = k"
  by simp

lemma div_mod_4: "k < 4 \<Longrightarrow> (m * 4 + k) div 4 = (m::nat) \<and> (m * 4 + k) mod 4 = k"
  by simp

lemma byte_div_16: "(y::nat) < 256 \<Longrightarrow> y div 16 < 16"
  by simp

lemma byte_div_64: "(z::nat) < 256 \<Longrightarrow> z div 64 < 4"
  by simp

lemma pair_byte0: "(x::nat) div 4 * 4 + x mod 4 * 16 div 16 = x"
  by simp

lemma enc_byte0: "(y::nat) < 256 \<Longrightarrow> x div 4 * 4 + (x mod 4 * 16 + y div 16) div 16 = x"
  by (simp add: div_mod_16 byte_div_16)

lemma enc_byte1_tail:
  "(y::nat) < 256 \<Longrightarrow> (x mod 4 * 16 + y div 16) mod 16 * 16 + (y mod 16 * 4) div 4 = y"
  by (simp add: div_mod_16 byte_div_16)

lemma enc_byte1: "(y::nat) < 256 \<Longrightarrow> z < 256 \<Longrightarrow>
   (x mod 4 * 16 + y div 16) mod 16 * 16 + (y mod 16 * 4 + z div 64) div 4 = y"
  by (simp add: div_mod_16 byte_div_16 div_mod_4 byte_div_64)

lemma enc_byte2: "(z::nat) < 256 \<Longrightarrow> (y mod 16 * 4 + z div 64) mod 4 * 64 + z mod 64 = z"
  by (simp add: div_mod_4 byte_div_64)

lemma enc_tail_bits: "(y mod 16 * 4) mod 4 = (0::nat)"
  by simp

lemma decodePair_encode:
  "decodePair (base64Char (unat a div 4)) (base64Char (unat a mod 4 * 16)) = Some [a]"
proof -
  have b: "unat a div 4 < 64" "unat a mod 4 * 16 < 64"
    using unat_byte [of a] by auto
  have "unat a div 4 * 4 + unat a mod 4 * 16 div 16 = unat a"
    by (rule pair_byte0)
  then have "(of_nat (unat a div 4 * 4 + unat a mod 4 * 16 div 16) :: 8 word) = a"
    by simp
  then show ?thesis
    by (simp add: decodePair_def base64Value_base64Char b)
qed

lemma decodeTriple_encode:
  "decodeTriple (base64Char (unat a div 4)) (base64Char (unat a mod 4 * 16 + unat b div 16))
     (base64Char (unat b mod 16 * 4)) = Some [a, b]"
proof -
  let ?v0 = "unat a div 4" and ?v1 = "unat a mod 4 * 16 + unat b div 16"
    and ?v2 = "unat b mod 16 * 4"
  have b: "?v0 < 64" "?v1 < 64" "?v2 < 64"
    using unat_byte [of a] unat_byte [of b] by auto
  have "?v0 * 4 + ?v1 div 16 = unat a" "?v1 mod 16 * 16 + ?v2 div 4 = unat b" "?v2 mod 4 = 0"
    using unat_byte [of b] by (simp_all only: enc_byte0 enc_byte1_tail enc_tail_bits)
  then have "(of_nat (?v0 * 4 + ?v1 div 16) :: 8 word) = a"
    "(of_nat (?v1 mod 16 * 16 + ?v2 div 4) :: 8 word) = b" "?v2 mod 4 = 0"
    by simp_all
  then show ?thesis
    by (simp add: decodeTriple_def base64Value_base64Char b)
qed

lemma decodeQuad_encode:
  "decodeQuad (base64Char (unat a div 4)) (base64Char (unat a mod 4 * 16 + unat b div 16))
     (base64Char (unat b mod 16 * 4 + unat c div 64)) (base64Char (unat c mod 64))
   = Some [a, b, c]"
proof -
  let ?v0 = "unat a div 4" and ?v1 = "unat a mod 4 * 16 + unat b div 16"
    and ?v2 = "unat b mod 16 * 4 + unat c div 64" and ?v3 = "unat c mod 64"
  have b: "?v0 < 64" "?v1 < 64" "?v2 < 64" "?v3 < 64"
    using unat_byte [of a] unat_byte [of b] unat_byte [of c] by auto
  have "?v0 * 4 + ?v1 div 16 = unat a" "?v1 mod 16 * 16 + ?v2 div 4 = unat b"
    "?v2 mod 4 * 64 + ?v3 = unat c"
    using unat_byte [of b] unat_byte [of c] by (simp_all only: enc_byte0 enc_byte1 enc_byte2)
  then have "(of_nat (?v0 * 4 + ?v1 div 16) :: 8 word) = a"
    "(of_nat (?v1 mod 16 * 16 + ?v2 div 4) :: 8 word) = b"
    "(of_nat (?v2 mod 4 * 64 + ?v3) :: 8 word) = c"
    by simp_all
  then show ?thesis
    by (simp add: decodeQuad_def base64Value_base64Char b)
qed

lemma fromBase64_quad:
  "c3 \<noteq> CHR ''='' \<Longrightarrow>
   fromBase64 (c0 # c1 # c2 # c3 # rest) =
     (case decodeQuad c0 c1 c2 c3 of
        None \<Rightarrow> None
      | Some bytes \<Rightarrow>
          (case fromBase64 rest of None \<Rightarrow> None | Some bytes' \<Rightarrow> Some (bytes @ bytes')))"
  by (cases rest) (simp_all split: option.splits)

lemma fromBase64_toBase64: "fromBase64 (toBase64 bytes) = Some bytes"
proof (induction bytes rule: toBase64.induct)
  case 1
  show ?case by simp
next
  case (2 a)
  show ?case by (simp add: decodePair_encode)
next
  case (3 a b)
  show ?case by (simp add: decodeTriple_encode base64Char_not_pad)
next
  case (4 a b c rest)
  then show ?case
    by (simp add: fromBase64_quad base64Char_not_pad decodeQuad_encode)
qed

lemma unat_of_nat_byte: "n < 256 \<Longrightarrow> unat (of_nat n :: 8 word) = n"
  by (simp add: unat_of_nat)

lemma div_mod_64: "k < 64 \<Longrightarrow> (m * 64 + k) div 64 = (m::nat) \<and> (m * 64 + k) mod 64 = k"
  by simp

lemma sextet_div_16: "(v::nat) < 64 \<Longrightarrow> v div 16 < 4"
  by simp

lemma sextet_div_4: "(v::nat) < 64 \<Longrightarrow> v div 4 < 16"
  by simp

lemma byte0_bound: "(v0::nat) < 64 \<Longrightarrow> v1 < 64 \<Longrightarrow> v0 * 4 + v1 div 16 < 256"
  using sextet_div_16 [of v1] by linarith

lemma byte1_bound: "(v2::nat) < 64 \<Longrightarrow> v1 mod 16 * 16 + v2 div 4 < 256"
proof -
  assume "v2 < 64"
  then have "v2 div 4 < 16" by simp
  moreover have "v1 mod 16 < 16" by simp
  ultimately show ?thesis by linarith
qed

lemma byte2_bound: "(v3::nat) < 64 \<Longrightarrow> v2 mod 4 * 64 + v3 < 256"
proof -
  assume "v3 < 64"
  moreover have "v2 mod 4 < 4" by simp
  ultimately show ?thesis by linarith
qed

lemma dec_sextet0: "(v1::nat) < 64 \<Longrightarrow> (v0 * 4 + v1 div 16) div 4 = v0"
  by (simp add: div_mod_4 sextet_div_16)

lemma dec_sextet1_tail:
  "(v1::nat) < 64 \<Longrightarrow> v1 mod 16 = 0 \<Longrightarrow> (v0 * 4 + v1 div 16) mod 4 * 16 = v1"
  by (simp add: div_mod_4 sextet_div_16 mod_0_imp_dvd)

lemma dec_sextet1: "(v1::nat) < 64 \<Longrightarrow> v2 < 64 \<Longrightarrow>
   (v0 * 4 + v1 div 16) mod 4 * 16 + (v1 mod 16 * 16 + v2 div 4) div 16 = v1"
  by (simp add: div_mod_4 sextet_div_16 div_mod_16 sextet_div_4)

lemma dec_sextet2_tail:
  "(v2::nat) < 64 \<Longrightarrow> v2 mod 4 = 0 \<Longrightarrow> (v1 mod 16 * 16 + v2 div 4) mod 16 * 4 = v2"
  by (simp add: div_mod_16 sextet_div_4 mod_0_imp_dvd)

lemma dec_sextet2: "(v2::nat) < 64 \<Longrightarrow> v3 < 64 \<Longrightarrow>
   (v1 mod 16 * 16 + v2 div 4) mod 16 * 4 + (v2 mod 4 * 64 + v3) div 64 = v2"
  by (simp add: div_mod_16 sextet_div_4 div_mod_64)

lemma dec_sextet3: "(v3::nat) < 64 \<Longrightarrow> (v2 mod 4 * 64 + v3) mod 64 = v3"
  by (simp add: div_mod_64)

lemma toBase64_decodePair:
  assumes "decodePair c0 c1 = Some bytes"
  shows "toBase64 bytes = [c0, c1, CHR ''='', CHR ''='']"
proof -
  from assms obtain v0 v1 where v: "base64Value c0 = Some v0" "base64Value c1 = Some v1"
    and m: "v1 mod 16 = 0" and bytes: "bytes = [of_nat (v0 * 4 + v1 div 16)]"
    by (auto simp: decodePair_def split: option.splits if_splits)
  from v have b: "v0 < 64" "v1 < 64" and c: "base64Char v0 = c0" "base64Char v1 = c1"
    by (simp_all add: base64Value_Some_iff)
  have u: "unat (of_nat (v0 * 4 + v1 div 16) :: 8 word) = v0 * 4 + v1 div 16"
    using b by (simp only: unat_of_nat_byte byte0_bound)
  show ?thesis
    by (simp only: bytes toBase64.simps u dec_sextet0 [OF b(2)] dec_sextet1_tail [OF b(2) m] c)
qed

lemma toBase64_decodeTriple:
  assumes "decodeTriple c0 c1 c2 = Some bytes"
  shows "toBase64 bytes = [c0, c1, c2, CHR ''='']"
proof -
  from assms obtain v0 v1 v2 where v: "base64Value c0 = Some v0" "base64Value c1 = Some v1"
      "base64Value c2 = Some v2"
    and m: "v2 mod 4 = 0"
    and bytes: "bytes = [of_nat (v0 * 4 + v1 div 16), of_nat (v1 mod 16 * 16 + v2 div 4)]"
    by (auto simp: decodeTriple_def split: option.splits if_splits)
  from v have b: "v0 < 64" "v1 < 64" "v2 < 64"
    and c: "base64Char v0 = c0" "base64Char v1 = c1" "base64Char v2 = c2"
    by (simp_all add: base64Value_Some_iff)
  have u: "unat (of_nat (v0 * 4 + v1 div 16) :: 8 word) = v0 * 4 + v1 div 16"
    "unat (of_nat (v1 mod 16 * 16 + v2 div 4) :: 8 word) = v1 mod 16 * 16 + v2 div 4"
    using b by (simp_all only: unat_of_nat_byte byte0_bound byte1_bound)
  show ?thesis
    by (simp only: bytes toBase64.simps u dec_sextet0 [OF b(2)] dec_sextet1 [OF b(2) b(3)]
        dec_sextet2_tail [OF b(3) m] c)
qed

lemma toBase64_decodeQuad:
  assumes "decodeQuad c0 c1 c2 c3 = Some bytes"
  shows "toBase64 (bytes @ rest) = [c0, c1, c2, c3] @ toBase64 rest"
proof -
  from assms obtain v0 v1 v2 v3 where v: "base64Value c0 = Some v0" "base64Value c1 = Some v1"
      "base64Value c2 = Some v2" "base64Value c3 = Some v3"
    and bytes: "bytes = [of_nat (v0 * 4 + v1 div 16), of_nat (v1 mod 16 * 16 + v2 div 4),
                         of_nat (v2 mod 4 * 64 + v3)]"
    by (auto simp: decodeQuad_def split: option.splits)
  from v have b: "v0 < 64" "v1 < 64" "v2 < 64" "v3 < 64"
    and c: "base64Char v0 = c0" "base64Char v1 = c1" "base64Char v2 = c2" "base64Char v3 = c3"
    by (simp_all add: base64Value_Some_iff)
  have u: "unat (of_nat (v0 * 4 + v1 div 16) :: 8 word) = v0 * 4 + v1 div 16"
    "unat (of_nat (v1 mod 16 * 16 + v2 div 4) :: 8 word) = v1 mod 16 * 16 + v2 div 4"
    "unat (of_nat (v2 mod 4 * 64 + v3) :: 8 word) = v2 mod 4 * 64 + v3"
    using b by (simp_all only: unat_of_nat_byte byte0_bound byte1_bound byte2_bound)
  show ?thesis
    by (simp only: bytes append_Cons append_Nil toBase64.simps u dec_sextet0 [OF b(2)]
        dec_sextet1 [OF b(2) b(3)] dec_sextet2 [OF b(3) b(4)] dec_sextet3 [OF b(4)] c)
qed

lemma decodePair_valid: "decodePair c0 c1 \<noteq> None \<longleftrightarrow> isBase64Char c0 \<and> c1 \<in> set ''AQgw''"
  unfolding isBase64Char_iff tail2_iff
  by (auto simp: decodePair_def split: option.splits)

lemma decodeTriple_valid:
  "decodeTriple c0 c1 c2 \<noteq> None \<longleftrightarrow>
     isBase64Char c0 \<and> isBase64Char c1 \<and> c2 \<in> set ''AEIMQUYcgkosw048''"
  unfolding isBase64Char_iff tail3_iff
  by (auto simp: decodeTriple_def split: option.splits)

lemma decodeQuad_valid:
  "decodeQuad c0 c1 c2 c3 \<noteq> None \<longleftrightarrow>
     isBase64Char c0 \<and> isBase64Char c1 \<and> isBase64Char c2 \<and> isBase64Char c3"
  unfolding isBase64Char_iff
  by (auto simp: decodeQuad_def split: option.splits)

lemma validBase64_iff_decodes: "validBase64 s \<longleftrightarrow> fromBase64 s \<noteq> None"
proof (induction s rule: validBase64.induct)
  case 1
  show ?case by simp
next
  case (2 c0)
  show ?case by simp
next
  case (3 c0 c1)
  show ?case by (simp only: validBase64.simps fromBase64.simps decodePair_valid)
next
  case (4 c0 c1 c2)
  show ?case by (simp only: validBase64.simps fromBase64.simps decodeTriple_valid)
next
  case (5 c0 c1 c2 c3)
  show ?case
    by (simp only: validBase64.simps fromBase64.simps decodePair_valid decodeTriple_valid
        decodeQuad_valid split: if_splits) simp
next
  case (6 c0 c1 c2 c3 c4 rest)
  have "fromBase64 (c0 # c1 # c2 # c3 # c4 # rest) \<noteq> None \<longleftrightarrow>
          decodeQuad c0 c1 c2 c3 \<noteq> None \<and> fromBase64 (c4 # rest) \<noteq> None"
    by (simp split: option.splits)
  with 6 show ?case
    by (simp only: validBase64.simps decodeQuad_valid conj_assoc)
qed

lemma validBase64_toBase64: "validBase64 (toBase64 bytes)"
  by (simp add: validBase64_iff_decodes fromBase64_toBase64)

lemma padCanonical_short:
  "padCanonical [] = []"
  "padCanonical [c0, c1] = [c0, c1, CHR ''='', CHR ''='']"
  "padCanonical [c0, c1, c2] = [c0, c1, c2, CHR ''='']"
  "padCanonical [c0, c1, c2, c3] = [c0, c1, c2, c3]"
  by (simp_all add: padCanonical_def numeral_2_eq_2)

lemma padCanonical_quad:
  "padCanonical (c0 # c1 # c2 # c3 # rest) = c0 # c1 # c2 # c3 # padCanonical rest"
  by (simp add: padCanonical_def)

lemma toBase64_fromBase64:
  "fromBase64 s = Some bytes \<Longrightarrow> toBase64 bytes = padCanonical s"
proof (induction s arbitrary: bytes rule: fromBase64.induct)
  case 1
  then show ?case by (simp add: padCanonical_short)
next
  case (2 c0)
  then show ?case by simp
next
  case (3 c0 c1)
  then show ?case by (simp add: toBase64_decodePair padCanonical_short)
next
  case (4 c0 c1 c2)
  then show ?case by (simp add: toBase64_decodeTriple padCanonical_short)
next
  case (5 c0 c1 c2 c3)
  then show ?case
    using toBase64_decodeQuad [of c0 c1 c2 c3 bytes "[]"]
    by (auto simp: toBase64_decodePair toBase64_decodeTriple padCanonical_short
        split: if_splits)
next
  case (6 c0 c1 c2 c3 c4 rest)
  from "6.prems" obtain b1 b2 where q: "decodeQuad c0 c1 c2 c3 = Some b1"
    and r: "fromBase64 (c4 # rest) = Some b2" and bytes: "bytes = b1 @ b2"
    by (auto split: option.splits)
  from "6.IH" [OF q r] have "toBase64 b2 = padCanonical (c4 # rest)" .
  with toBase64_decodeQuad [OF q, of b2] show ?case
    by (simp only: bytes padCanonical_quad append_Cons append_Nil)
qed

section \<open>Facts about the two construction paths\<close>

lemma validBase64_no_colon: "validBase64 s \<Longrightarrow> CHR '':'' \<notin> set s"
proof (induction s rule: validBase64.induct)
  case (5 c0 c1 c2 c3)
  then show ?case
    using colon_not_in_alphabet by (auto simp: isBase64Char_def split: if_splits)
qed (use colon_not_in_alphabet in \<open>auto simp: isBase64Char_def\<close>)

lemma toBase64_no_colon: "CHR '':'' \<notin> set (toBase64 bytes)"
proof (induction bytes rule: toBase64.induct)
  case (4 a b c rest)
  then show ?case
    using colon_not_in_alphabet base64Char_in_alphabet by (auto simp: toBase64.simps)
qed (use colon_not_in_alphabet base64Char_in_alphabet in auto)

lemma Embed_new_no_colon:
  "CHR '':'' \<notin> set b \<Longrightarrow>
   Embed_new hostStates c b = Inr \<lparr>contentType = c, base64Data = b\<rparr>"
  using isURL_colon [of hostStates b] by (auto simp: Embed_new_def)

lemma Embed_new_Inr:
  "Embed_new hostStates c b = Inr e \<Longrightarrow>
   \<not> isURL hostStates b \<and> e = \<lparr>contentType = c, base64Data = b\<rparr>"
  by (auto simp: Embed_new_def split: if_splits)

lemma fromUri_Inr:
  assumes "fromUri hostStates got c uri = Inr e"
  shows "\<exists>response. got uri \<lparr>responseType = Buffer\<rparr> = Inr response
            \<and> statusCode response = 200
            \<and> Embed_new hostStates c (toBase64 (body response)) = Inr e"
  using assms by (auto simp: fromUri_def split: sum.splits if_splits)

lemma fromUri_200:
  assumes "got uri \<lparr>responseType = Buffer\<rparr> = Inr response" and "statusCode response = 200"
  shows "fromUri hostStates got c uri
           = Inr \<lparr>contentType = c, base64Data = toBase64 (body response)\<rparr>"
  using assms by (simp add: fromUri_def Embed_new_no_colon toBase64_no_colon)

lemma fromUri_rejected:
  "got uri \<lparr>responseType = Buffer\<rparr> = Inl rejection \<Longrightarrow>
   fromUri hostStates got c uri = Inl rejection"
  by (simp add: fromUri_def)

lemma fromUri_non_200:
  assumes "got uri \<lparr>responseType = Buffer\<rparr> = Inr response"
    and "statusCode response \<noteq> 200"
  shows "fromUri hostStates got c uri
           = Inl (Error (''Got status code '' @ showNat (statusCode response)
                         @ '' when fetching '' @ uri))"
  using assms by (simp add: fromUri_def UnexpectedResponseStatus_def)

section \<open>The claims\<close>

text \<open>
  C1. For every valid Base64 string \<open>b\<close> and every content type \<open>c\<close>, the inline
  construction succeeds: the URL test does not fire, since no valid Base64 string parses
  as a URL, and the resulting Embed stores exactly \<open>c\<close> and \<open>b\<close>. The stored payload is
  read through the public field \<open>base64Data\<close>.
\<close>

theorem construct_valid_base64:
  "validBase64 b \<Longrightarrow>
   \<not> isURL hostStates b
   \<and> Embed_new hostStates c b = Inr \<lparr>contentType = c, base64Data = b\<rparr>"
proof -
  assume "validBase64 b"
  then have nc: "CHR '':'' \<notin> set b"
    by (rule validBase64_no_colon)
  then have "\<not> isURL hostStates b"
    using isURL_colon by blast
  moreover have "Embed_new hostStates c b = Inr \<lparr>contentType = c, base64Data = b\<rparr>"
    using nc by (rule Embed_new_no_colon)
  ultimately show ?thesis by simp
qed

theorem construct_valid_base64_witness:
  "validBase64 ''aGVsbG8=''
   \<and> \<not> isURL (\<lambda>scheme remaining. True) ''aGVsbG8=''
   \<and> Embed_new (\<lambda>scheme remaining. True) ''text/plain'' ''aGVsbG8=''
       = Inr \<lparr>contentType = ''text/plain'', base64Data = ''aGVsbG8=''\<rparr>"
proof -
  have h: "validBase64 ''aGVsbG8=''"
    by (simp add: isBase64Char_def base64Alphabet_def)
  from construct_valid_base64 [OF h, of "\<lambda>scheme remaining. True" "''text/plain''"] h
  show ?thesis by blast
qed

text \<open>
  C2. For every string \<open>u\<close> that the URL parser accepts and every content type \<open>c\<close>, the
  inline construction fails with the invalid-payload error, whose message quotes \<open>u\<close>, and
  no Embed results.
\<close>

theorem construct_url_fails:
  "isURL hostStates u \<Longrightarrow>
   Embed_new hostStates c u = Inl (InvalidPayload u)
   \<and> (\<forall>e. Embed_new hostStates c u \<noteq> Inr e)"
  by (simp add: Embed_new_def)

theorem construct_url_fails_witness:
  "isURL (\<lambda>scheme remaining. False) ''data:text/plain;base64,aGVsbG8=''
   \<and> Embed_new (\<lambda>scheme remaining. False) ''text/plain'' ''data:text/plain;base64,aGVsbG8=''
       = Inl (InvalidPayload ''data:text/plain;base64,aGVsbG8='')
   \<and> isURL (\<lambda>scheme remaining. True) ''https://example.com/x''
   \<and> Embed_new (\<lambda>scheme remaining. True) ''image/png'' ''https://example.com/x''
       = Inl (InvalidPayload ''https://example.com/x'')"
proof -
  have h: "isURL (\<lambda>scheme remaining. False) ''data:text/plain;base64,aGVsbG8=''"
    by code_simp
  have h': "isURL (\<lambda>scheme remaining. True) ''https://example.com/x''"
    by code_simp
  from construct_url_fails [OF h, of "''text/plain''"]
    construct_url_fails [OF h', of "''image/png''"] h h'
  show ?thesis by blast
qed

text \<open>
  C3. For every content type \<open>c\<close> and URI, when the client resolves with a response of
  status 200 and body \<open>B\<close>, \<open>fromUri\<close> succeeds with an Embed whose decoded bytes are
  exactly \<open>B\<close> and whose content type is \<open>c\<close>.
\<close>

theorem fetch_200_bytes:
  assumes "got uri \<lparr>responseType = Buffer\<rparr> = Inr response"
    and "statusCode response = 200"
  shows "\<exists>e. fromUri hostStates got c uri = Inr e
           \<and> asBytes e = Inr (body response) \<and> contentType e = c"
proof -
  let ?e = "\<lparr>contentType = c, base64Data = toBase64 (body response)\<rparr>"
  have "fromUri hostStates got c uri = Inr ?e"
    using assms by (rule fromUri_200)
  moreover have "asBytes ?e = Inr (body response)"
    by (simp add: asBytes_def fromBase64_toBase64)
  ultimately show ?thesis by simp
qed

theorem fetch_200_bytes_witness:
  "(\<lambda>uri options. Inr \<lparr>statusCode = 200, body = [104, 105]\<rparr> :: error + Response)
      ''https://example.com/x'' \<lparr>responseType = Buffer\<rparr>
     = Inr \<lparr>statusCode = 200, body = [104, 105]\<rparr>
   \<and> (\<exists>e. fromUri (\<lambda>scheme remaining. True)
              (\<lambda>uri options. Inr \<lparr>statusCode = 200, body = [104, 105]\<rparr>)
              ''image/png'' ''https://example.com/x'' = Inr e
          \<and> asBytes e = Inr [104, 105] \<and> contentType e = ''image/png'')"
  using fetch_200_bytes [of "\<lambda>uri options. Inr \<lparr>statusCode = 200, body = [104, 105]\<rparr>"
      "''https://example.com/x''" "\<lparr>statusCode = 200, body = [104, 105]\<rparr>"
      "\<lambda>scheme remaining. True" "''image/png''"]
  by simp


text \<open>
  C6. Every successful \<open>fromUri\<close> comes from a response of status 200 with some body
  \<open>B\<close>, and its Embed is the one the inline constructor produces from the same content
  type and the Base64 encoding of \<open>B\<close>.
\<close>

theorem fetch_equals_construct:
  "fromUri hostStates got c uri = Inr e \<Longrightarrow>
   \<exists>response. got uri \<lparr>responseType = Buffer\<rparr> = Inr response
      \<and> statusCode response = 200
      \<and> Embed_new hostStates c (toBase64 (body response)) = Inr e
      \<and> e = \<lparr>contentType = c, base64Data = toBase64 (body response)\<rparr>"
proof -
  assume "fromUri hostStates got c uri = Inr e"
  then obtain response where r: "got uri \<lparr>responseType = Buffer\<rparr> = Inr response"
      "statusCode response = 200"
      "Embed_new hostStates c (toBase64 (body response)) = Inr e"
    using fromUri_Inr by blast
  from r(3) have "e = \<lparr>contentType = c, base64Data = toBase64 (body response)\<rparr>"
    using Embed_new_Inr by blast
  with r show ?thesis by blast
qed

theorem fetch_equals_construct_witness:
  "fromUri (\<lambda>scheme remaining. True)
      (\<lambda>uri options. Inr \<lparr>statusCode = 200, body = [104, 105]\<rparr>)
      ''image/png'' ''https://example.com/x''
     = Inr \<lparr>contentType = ''image/png'', base64Data = toBase64 [104, 105]\<rparr>
   \<and> Embed_new (\<lambda>scheme remaining. True) ''image/png'' (toBase64 [104, 105])
     = Inr \<lparr>contentType = ''image/png'', base64Data = toBase64 [104, 105]\<rparr>
   \<and> toBase64 [104, 105] = ''aGk=''"
proof -
  let ?got = "\<lambda>uri options. Inr \<lparr>statusCode = 200, body = [104, 105]\<rparr> :: error + Response"
  have h: "fromUri (\<lambda>scheme remaining. True) ?got ''image/png'' ''https://example.com/x''
     = Inr \<lparr>contentType = ''image/png'', base64Data = toBase64 [104, 105]\<rparr>"
    by code_simp
  from fetch_equals_construct [OF h] obtain response
    where r: "?got ''https://example.com/x'' \<lparr>responseType = Buffer\<rparr> = Inr response"
      and e: "Embed_new (\<lambda>scheme remaining. True) ''image/png'' (toBase64 (body response))
                = Inr \<lparr>contentType = ''image/png'', base64Data = toBase64 [104, 105]\<rparr>"
    by blast
  from r have "body response = [104, 105]" by auto
  with e have "Embed_new (\<lambda>scheme remaining. True) ''image/png'' (toBase64 [104, 105])
                = Inr \<lparr>contentType = ''image/png'', base64Data = toBase64 [104, 105]\<rparr>"
    by (simp only:)
  moreover have "toBase64 [104, 105] = ''aGk=''"
    by code_simp
  ultimately show ?thesis
    using h by (intro conjI)
qed

text \<open>
  C7. For every valid Base64 string \<open>b\<close>, the raw-byte view of an Embed built from \<open>b\<close>
  is exactly the byte sequence that decoding \<open>b\<close> gives, and encoding those bytes again
  gives \<open>b\<close> with its canonical padding.
\<close>

theorem asBytes_round_trip:
  "validBase64 b \<Longrightarrow>
   \<exists>e bytes. Embed_new hostStates c b = Inr e
      \<and> asBytes e = Inr bytes \<and> fromBase64 b = Some bytes
      \<and> toBase64 bytes = padCanonical b"
proof -
  assume v: "validBase64 b"
  then obtain bytes where d: "fromBase64 b = Some bytes"
    using validBase64_iff_decodes by blast
  let ?e = "\<lparr>contentType = c, base64Data = b\<rparr>"
  have "Embed_new hostStates c b = Inr ?e"
    using v by (intro Embed_new_no_colon validBase64_no_colon)
  moreover have "asBytes ?e = Inr bytes"
    using d by (simp add: asBytes_def)
  moreover have "toBase64 bytes = padCanonical b"
    using d by (rule toBase64_fromBase64)
  ultimately show ?thesis
    using d by blast
qed

theorem asBytes_round_trip_witness:
  "validBase64 ''aGVsbG8''
   \<and> (\<exists>e bytes. Embed_new (\<lambda>scheme remaining. True) ''text/plain'' ''aGVsbG8'' = Inr e
        \<and> asBytes e = Inr bytes \<and> fromBase64 ''aGVsbG8'' = Some bytes
        \<and> toBase64 bytes = padCanonical ''aGVsbG8'')
   \<and> fromBase64 ''aGVsbG8'' = Some [104, 101, 108, 108, 111]
   \<and> padCanonical ''aGVsbG8'' = ''aGVsbG8=''"
proof -
  have h: "validBase64 ''aGVsbG8''"
    by (simp add: isBase64Char_def base64Alphabet_def)
  have "fromBase64 ''aGVsbG8'' = Some [104, 101, 108, 108, 111]"
    by code_simp
  moreover have "padCanonical ''aGVsbG8'' = ''aGVsbG8=''"
    by code_simp
  ultimately show ?thesis
    using h asBytes_round_trip [OF h, of "\<lambda>scheme remaining. True" "''text/plain''"]
    by (intro conjI)
qed

text \<open>
  C8. Some strings that are not Base64, such as one with the character \<^verbatim>\<open>!\<close>, do not
  parse as a URL either, and the inline construction accepts them: beyond the URL test
  the constructor checks nothing.
\<close>

theorem construct_accepts_non_base64:
  "\<exists>s. CHR ''!'' \<in> set s \<and> \<not> validBase64 s \<and> \<not> isURL hostStates s
      \<and> Embed_new hostStates c s = Inr \<lparr>contentType = c, base64Data = s\<rparr>"
proof -
  let ?s = "''hello!''"
  have nc: "CHR '':'' \<notin> set ?s" by simp
  have "CHR ''!'' \<in> set ?s" by simp
  moreover have "\<not> validBase64 ?s" by simp
  moreover have "\<not> isURL hostStates ?s"
    using nc isURL_colon by blast
  moreover have "Embed_new hostStates c ?s = Inr \<lparr>contentType = c, base64Data = ?s\<rparr>"
    using nc by (rule Embed_new_no_colon)
  ultimately show ?thesis by blast
qed

theorem construct_accepts_non_base64_witness:
  "\<exists>s. CHR ''!'' \<in> set s \<and> \<not> validBase64 s \<and> \<not> isURL (\<lambda>scheme remaining. True) s
      \<and> Embed_new (\<lambda>scheme remaining. True) ''image/png'' s
          = Inr \<lparr>contentType = ''image/png'', base64Data = s\<rparr>"
  by (rule construct_accepts_non_base64)

text \<open>
  C9. For every Embed constructed with a string that is not valid Base64, such as one
  with the character \<^verbatim>\<open>!\<close>, the raw-byte view fails with \<open>DecodeError\<close>.
\<close>

theorem asBytes_invalid_fails:
  "\<not> validBase64 b \<Longrightarrow> Embed_new hostStates c b = Inr e \<Longrightarrow> asBytes e = Inl DecodeError"
proof -
  assume nv: "\<not> validBase64 b" and "Embed_new hostStates c b = Inr e"
  then have "base64Data e = b"
    using Embed_new_Inr by fastforce
  moreover from nv have "fromBase64 b = None"
    using validBase64_iff_decodes by blast
  ultimately show ?thesis
    by (simp add: asBytes_def)
qed

theorem asBytes_invalid_fails_witness:
  "\<not> validBase64 ''hello!''
   \<and> Embed_new (\<lambda>scheme remaining. True) ''text/plain'' ''hello!''
       = Inr \<lparr>contentType = ''text/plain'', base64Data = ''hello!''\<rparr>
   \<and> asBytes \<lparr>contentType = ''text/plain'', base64Data = ''hello!''\<rparr> = Inl DecodeError"
proof -
  have nv: "\<not> validBase64 ''hello!''" by simp
  have ok: "Embed_new (\<lambda>scheme remaining. True) ''text/plain'' ''hello!''
       = Inr \<lparr>contentType = ''text/plain'', base64Data = ''hello!''\<rparr>"
    by (rule Embed_new_no_colon) simp
  from asBytes_invalid_fails [OF nv ok] nv ok
  show ?thesis by (intro conjI)
qed

text \<open>
  C10. Every Embed that is ever created, by the inline constructor or by \<open>fromUri\<close>,
  stores a string that does not parse as a URL. In particular the Base64 encoding of any
  byte sequence has no colon, so that the constructor call inside \<open>fromUri\<close> never
  raises the invalid-payload error.
\<close>

theorem stored_data_never_url:
  "(Embed_new hostStates c b = Inr e \<longrightarrow> \<not> isURL hostStates (base64Data e))
   \<and> (fromUri hostStates got c uri = Inr e' \<longrightarrow> \<not> isURL hostStates (base64Data e'))
   \<and> CHR '':'' \<notin> set (toBase64 bytes)
   \<and> \<not> isURL hostStates (toBase64 bytes)
   \<and> Embed_new hostStates c (toBase64 bytes)
       = Inr \<lparr>contentType = c, base64Data = toBase64 bytes\<rparr>"
proof -
  have "\<not> isURL hostStates (base64Data e)" if "Embed_new hostStates c b = Inr e"
    using Embed_new_Inr [OF that] by simp
  moreover have "\<not> isURL hostStates (base64Data e')"
    if "fromUri hostStates got c uri = Inr e'"
  proof -
    from fromUri_Inr [OF that] obtain response :: Response
      where "Embed_new hostStates c (toBase64 (body response)) = Inr e'"
      by blast
    from Embed_new_Inr [OF this] show ?thesis by simp
  qed
  moreover have nc: "CHR '':'' \<notin> set (toBase64 bytes)"
    by (rule toBase64_no_colon)
  moreover have "\<not> isURL hostStates (toBase64 bytes)"
    using nc isURL_colon by blast
  moreover have "Embed_new hostStates c (toBase64 bytes)
       = Inr \<lparr>contentType = c, base64Data = toBase64 bytes\<rparr>"
    using nc by (rule Embed_new_no_colon)
  ultimately show ?thesis by blast
qed

theorem stored_data_never_url_witness:
  "Embed_new (\<lambda>scheme remaining. True) ''image/png'' ''hello!''
     = Inr \<lparr>contentType = ''image/png'', base64Data = ''hello!''\<rparr>
   \<and> \<not> isURL (\<lambda>scheme remaining. True) ''hello!''
   \<and> fromUri (\<lambda>scheme remaining. True)
        (\<lambda>uri options. Inr \<lparr>statusCode = 200, body = [255, 254, 253, 252]\<rparr>)
        ''image/png'' ''https://example.com/x''
       = Inr \<lparr>contentType = ''image/png'', base64Data = toBase64 [255, 254, 253, 252]\<rparr>
   \<and> \<not> isURL (\<lambda>scheme remaining. True) (toBase64 [255, 254, 253, 252])
   \<and> toBase64 [255, 254, 253, 252] = ''//79/A==''"
proof -
  let ?hs = "\<lambda>scheme remaining. True :: bool"
  let ?got = "\<lambda>uri options.
      Inr \<lparr>statusCode = 200, body = [255, 254, 253, 252]\<rparr> :: error + Response"
  let ?e = "\<lparr>contentType = ''image/png'', base64Data = ''hello!''\<rparr>"
  let ?e' = "\<lparr>contentType = ''image/png'', base64Data = toBase64 [255, 254, 253, 252]\<rparr>"
  have a: "Embed_new ?hs ''image/png'' ''hello!'' = Inr ?e"
    by (rule Embed_new_no_colon) simp
  have b: "fromUri ?hs ?got ''image/png'' ''https://example.com/x'' = Inr ?e'"
    by code_simp
  have t: "toBase64 [255, 254, 253, 252] = ''//79/A==''"
    by code_simp
  note th = stored_data_never_url [of ?hs "''image/png''" "''hello!''" ?e ?got
      "''https://example.com/x''" ?e' "[255, 254, 253, 252]"]
  from th a have "\<not> isURL ?hs (base64Data ?e)" by blast
  then have "\<not> isURL ?hs ''hello!''" by simp
  moreover from th have "\<not> isURL ?hs (toBase64 [255, 254, 253, 252])" by blast
  ultimately show ?thesis
    using a b t by (intro conjI)
qed

end
